theory Spec2Isabelle
  imports Main
begin

section \<open>Data model\<close>

text \<open>
  The package \<^verbatim>\<open>httpc\<close> wraps a base request executor in a chain of middlewares.
  Executors are Go functions \<^verbatim>\<open>func(*http.Request) (*http.Response, error)\<close>: they
  receive a pointer, may write through it, may panic, and may do anything else to
  the process. The embedding makes all of that explicit: an executor takes the
  address of the request and the state of the process (\<open>world\<close>) and gives back
  an \<open>outcome\<close> and the new state.
\<close>

subsection \<open>Errors and panic payloads\<close>

text \<open>
  \<^verbatim>\<open>context.Canceled\<close> and \<^verbatim>\<open>context.DeadlineExceeded\<close>, the two values a
  context's \<^verbatim>\<open>Err()\<close> can hold.
\<close>

datatype ctx_error = Canceled | DeadlineExceeded

text \<open>
  The error values of the package (middlewares.go, lines 13-28): the two sentinels
  and the \<^verbatim>\<open>*PanicError\<close> with its fields \<^verbatim>\<open>Recovered\<close> and \<^verbatim>\<open>Stack\<close>;
  beside them the context errors, \<^verbatim>\<open>io.EOF\<close> and any other error an executor
  reports. A panic payload (\<^verbatim>\<open>any\<close>) is a string, an error, or a run-time error
  of the Go runtime.
\<close>

datatype error =
    ErrPanicRecovered
  | ErrInsecureScheme
  | PanicError any string
  | CtxError ctx_error
  | EOF
  | OtherError string
and any =
    AnyString string
  | AnyError error
  | RuntimeError string

fun Recovered :: "error \<Rightarrow> any option" where
  "Recovered (PanicError v st) = Some v"
| "Recovered _ = None"

fun Stack :: "error \<Rightarrow> string" where
  "Stack (PanicError v st) = st"
| "Stack _ = []"

subsection \<open>Contexts\<close>

text \<open>
  A context is the background context or a timer context derived from a parent with
  a deadline (an absolute time in nanoseconds). A timer context carries the identity
  under which its cancel function is registered in the world.
\<close>

datatype Context = Background | TimerCtx nat Context int

subsection \<open>Requests and responses\<close>

record URL =
  Scheme :: string
  Host :: string
  Path :: string
  RawQuery :: string
  Fragment :: string

text \<open>
  \<^verbatim>\<open>http.Request\<close>: the URL is a pointer (\<open>None\<close> is nil); the header is a Go
  map, a reference into the heap of header maps (\<open>None\<close> is the nil map); \<open>ctx\<close>
  is the attached context (\<open>None\<close> is nil, read as the background context by
  \<^verbatim>\<open>Request.Context()\<close>).
\<close>

record Request =
  Method :: string
  Url :: "URL option"
  Header :: "nat option"
  ctx :: "Context option"

text \<open>
  A response body is a reader. \<open>DelayedReader\<close> is the reader of the test suite
  (middlewares\_test.go, \<^verbatim>\<open>delayedReader\<close>): it is bound to a context and delivers
  its data after a delay.
\<close>

datatype body = NoBody | BytesBody string | DelayedReader Context int string

record Response =
  StatusCode :: int
  Body :: body

subsection \<open>The state of the process\<close>

datatype event = Before string | Invoked string | After string

text \<open>
  \<open>requests\<close> is the heap of request objects and \<open>headers\<close> the heap of header
  maps, both addressed by index. \<open>now\<close> is the clock (nanoseconds). \<open>cancelled\<close>
  records, for the identity of a timer context, the time at which its cancel
  function was first called. \<open>next_ctx\<close> is the next unused context identity.
  \<open>trace\<close> is what recording executors and middlewares have written so far, and
  \<open>frames\<close> the frames of the goroutine's stack as \<^verbatim>\<open>debug.Stack()\<close> prints them.
\<close>

record world =
  requests :: "Request list"
  headers :: "(string \<rightharpoonup> string list) list"
  now :: int
  cancelled :: "nat \<rightharpoonup> int"
  next_ctx :: nat
  trace :: "event list"
  frames :: string

text \<open>
  What a call of an executor ends in: it returns the pair \<^verbatim>\<open>(resp, err)\<close>, either of
  which may be nil, or it panics with a payload.
\<close>

datatype outcome = Returned "Response option" "error option" | Panicked any

type_synonym DoerFunc = "nat \<Rightarrow> world \<Rightarrow> outcome \<times> world"

text \<open>
  \<^verbatim>\<open>type MiddlewareFunc func(next DoerFunc) DoerFunc\<close> is a function value and may be
  nil: \<open>None\<close>.
\<close>

type_synonym MiddlewareFunc = "(DoerFunc \<Rightarrow> DoerFunc) option"

section \<open>Chain composition\<close>

text \<open>
  \<^verbatim>\<open>applyMiddlewares\<close> (lines 187-198 of the package file). The loop runs
  \<^verbatim>\<open>i\<close> from \<^verbatim>\<open>len(mws) - 1\<close> down to \<^verbatim>\<open>0\<close>; the counter of the model is
  \<^verbatim>\<open>i + 1\<close>. A nil entry is skipped by \<^verbatim>\<open>continue\<close>.
\<close>

fun applyMiddlewares_loop :: "MiddlewareFunc list \<Rightarrow> nat \<Rightarrow> DoerFunc \<Rightarrow> DoerFunc" where
  "applyMiddlewares_loop mws 0 chain = chain"
| "applyMiddlewares_loop mws (Suc i) chain =
     (case mws ! i of
        None \<Rightarrow> applyMiddlewares_loop mws i chain
      | Some mw \<Rightarrow> applyMiddlewares_loop mws i (mw chain))"

definition applyMiddlewares :: "DoerFunc \<Rightarrow> MiddlewareFunc list \<Rightarrow> DoerFunc" where
  "applyMiddlewares do mws = applyMiddlewares_loop mws (length mws) do"

text \<open>
  The nesting the loop is meant to build, written by recursion from the front of the
  list: the first middleware wraps everything that follows.
\<close>

fun nest :: "MiddlewareFunc list \<Rightarrow> DoerFunc \<Rightarrow> DoerFunc" where
  "nest [] do = do"
| "nest (None # mws) do = nest mws do"
| "nest (Some mw # mws) do = mw (nest mws do)"

subsection \<open>Recording middlewares and executors\<close>

definition record_event :: "event \<Rightarrow> world \<Rightarrow> world" where
  "record_event e w = w\<lparr>trace := trace w @ [e]\<rparr>"

definition record_events :: "event list \<Rightarrow> world \<Rightarrow> world" where
  "record_events es w = w\<lparr>trace := trace w @ es\<rparr>"

text \<open>
  A middleware with logic before and after forwarding, as the documentation's
  \<^verbatim>\<open>LogRequest\<close> example: it records \<open>Before l\<close>, calls \<^verbatim>\<open>next(r)\<close>, and records
  \<open>After l\<close> when the call returns. A panic of \<^verbatim>\<open>next\<close> unwinds through it.
\<close>

definition recording :: "string \<Rightarrow> MiddlewareFunc" where
  "recording l = Some (\<lambda>next r w.
     (case next r (record_event (Before l) w) of
        (Returned resp err, w') \<Rightarrow> (Returned resp err, record_event (After l) w')
      | (Panicked v, w') \<Rightarrow> (Panicked v, w')))"

text \<open>A base executor that records its invocation and returns a fixed result.\<close>

definition spy :: "string \<Rightarrow> Response option \<Rightarrow> error option \<Rightarrow> DoerFunc" where
  "spy l resp err = (\<lambda>r w. (Returned resp err, record_event (Invoked l) w))"

text \<open>Running the after-logic of the recording middlewares on an outcome.\<close>

definition unwind :: "string list \<Rightarrow> outcome \<times> world \<Rightarrow> outcome \<times> world" where
  "unwind ls ow =
     (case ow of
        (Returned resp err, w') \<Rightarrow> (Returned resp err, record_events (map After (rev ls)) w')
      | (Panicked v, w') \<Rightarrow> (Panicked v, w'))"

section \<open>Pointers\<close>

text \<open>
  Objects live in heaps that are lists; a pointer is an index into its heap, and an
  index outside the heap stands for the nil pointer. Dereferencing nil panics with a
  run-time error, and so does a write to a nil map.
\<close>

definition nil_dereference :: any where
  "nil_dereference = RuntimeError ''invalid memory address or nil pointer dereference''"

definition nil_map_write :: any where
  "nil_map_write = RuntimeError ''assignment to entry in nil map''"

section \<open>Wrappers\<close>

text \<open>
  \<^verbatim>\<open>Client\<close> and \<^verbatim>\<open>RoundTripper\<close> hold the base executor, the composed chain and
  the middleware sequence. Wrappers are heap objects handled through pointers; a
  constructor allocates a new object at the end of the heap, and a method called on
  the nil pointer panics. The base of a \<^verbatim>\<open>Client\<close> is a \<^verbatim>\<open>Doer\<close>, given here
  by its method \<^verbatim>\<open>Do\<close>. \<^verbatim>\<open>slices.Concat\<close> returns a newly allocated slice, so a
  derived wrapper shares no storage with its parent and the sequences are values
  here.
\<close>

record Client =
  base :: DoerFunc
  chain :: DoerFunc
  middlewares :: "MiddlewareFunc list"

record RoundTripper =
  rt_base :: DoerFunc
  rt_chain :: DoerFunc
  rt_middlewares :: "MiddlewareFunc list"

definition NewClient :: "DoerFunc \<Rightarrow> MiddlewareFunc list \<Rightarrow> Client list \<Rightarrow> nat \<times> Client list" where
  "NewClient doer mws h =
     (length h,
      h @ [\<lparr>base = doer, chain = applyMiddlewares doer mws, middlewares = mws\<rparr>])"

definition Client_Do :: "Client list \<Rightarrow> nat \<Rightarrow> DoerFunc" where
  "Client_Do h c =
     (if c < length h then chain (h ! c) else (\<lambda>r w. (Panicked nil_dereference, w)))"

definition Client_With ::
  "nat \<Rightarrow> MiddlewareFunc list \<Rightarrow> Client list \<Rightarrow> any + nat \<times> Client list" where
  "Client_With c mws h =
     (if c < length h then Inr (NewClient (base (h ! c)) (middlewares (h ! c) @ mws) h)
      else Inl nil_dereference)"

definition NewRoundTripper ::
  "DoerFunc \<Rightarrow> MiddlewareFunc list \<Rightarrow> RoundTripper list \<Rightarrow> nat \<times> RoundTripper list" where
  "NewRoundTripper rt mws h =
     (length h,
      h @ [\<lparr>rt_base = rt, rt_chain = applyMiddlewares rt mws, rt_middlewares = mws\<rparr>])"

definition RoundTripper_RoundTrip :: "RoundTripper list \<Rightarrow> nat \<Rightarrow> DoerFunc" where
  "RoundTripper_RoundTrip h t =
     (if t < length h then rt_chain (h ! t) else (\<lambda>r w. (Panicked nil_dereference, w)))"

definition RoundTripper_With ::
  "nat \<Rightarrow> MiddlewareFunc list \<Rightarrow> RoundTripper list \<Rightarrow> any + nat \<times> RoundTripper list" where
  "RoundTripper_With t mws h =
     (if t < length h
      then Inr (NewRoundTripper (rt_base (h ! t)) (rt_middlewares (h ! t) @ mws) h)
      else Inl nil_dereference)"

section \<open>Built-in middlewares\<close>

subsection \<open>Reading the heap\<close>

text \<open>
  The request an address points to; \<open>None\<close> for the nil pointer.
\<close>

definition load :: "world \<Rightarrow> nat \<Rightarrow> Request option" where
  "load w r = (if r < length (requests w) then Some (requests w ! r) else None)"


subsection \<open>Recover\<close>

text \<open>
  \<^verbatim>\<open>errors.Is(err, target)\<close> on the errors of the model: true when the two are the
  same value, or when \<^verbatim>\<open>err\<close> has an \<^verbatim>\<open>Is\<close> method that accepts the target. Only
  \<^verbatim>\<open>*PanicError\<close> has one (middlewares.go, lines 36-38), and it asks
  \<^verbatim>\<open>errors.Is(target, ErrPanicRecovered)\<close>. No error of the model wraps another.
\<close>

function errors_Is :: "error \<Rightarrow> error \<Rightarrow> bool" where
  "errors_Is err target =
     (err = target \<or>
      (case err of
         PanicError v st \<Rightarrow> errors_Is target ErrPanicRecovered
       | _ \<Rightarrow> False))"
  by pat_completeness auto
termination
  by (relation "measure (\<lambda>(err, target).
        (case err of
           PanicError v st \<Rightarrow> (case target of PanicError v' st' \<Rightarrow> 2 | _ \<Rightarrow> 1)
         | _ \<Rightarrow> 0))")
     (auto split: error.splits)

text \<open>
  \<^verbatim>\<open>recover()\<close> in a deferred function: the payload when the surrounding call is
  panicking, nil (\<open>None\<close>) when it is returning. The test \<^verbatim>\<open>r != nil\<close> of the
  source is the test for \<open>Some\<close>: since Go 1.21 a panic whose argument is nil
  arrives as a \<^verbatim>\<open>*runtime.PanicNilError\<close>, so the recovered payload of a panic is
  never nil.
\<close>

fun recover :: "outcome \<Rightarrow> any option" where
  "recover (Panicked v) = Some v"
| "recover (Returned resp err) = None"

text \<open>
  \<^verbatim>\<open>debug.Stack()\<close>: the header line of the goroutine, then its frames.
\<close>

definition debug_Stack :: "world \<Rightarrow> string" where
  "debug_Stack w = ''goroutine 1 [running]:'' @ CHR 0x0A # frames w"

text \<open>
  \<^verbatim>\<open>Recover\<close> (middlewares.go, lines 42-57). The results are named; when
  \<^verbatim>\<open>next(r)\<close> panics they still hold their zero values, and the deferred function
  assigns \<^verbatim>\<open>err\<close>.
\<close>

definition Recover :: MiddlewareFunc where
  "Recover = Some (\<lambda>next r w.
     (case next r w of (out, w') \<Rightarrow>
        (case recover out of
           Some v \<Rightarrow> (Returned None (Some (PanicError v (debug_Stack w'))), w')
         | None \<Rightarrow> (out, w'))))"

subsection \<open>Secure\<close>

text \<open>\<^verbatim>\<open>Secure\<close> (middlewares.go, lines 80-90).\<close>

definition Secure :: MiddlewareFunc where
  "Secure = Some (\<lambda>next r w.
     (case load w r of
        None \<Rightarrow> (Panicked nil_dereference, w)
      | Some rq \<Rightarrow>
          (case Url rq of
             None \<Rightarrow> (Panicked nil_dereference, w)
           | Some u \<Rightarrow>
               if Scheme u \<noteq> ''https'' then (Returned None (Some ErrInsecureScheme), w)
               else next r w)))"

subsection \<open>Header setters\<close>

text \<open>
  \<^verbatim>\<open>http.Header\<close> maps a canonical key to its list of values. \<^verbatim>\<open>Header.Set\<close>
  replaces the list by the single value, \<^verbatim>\<open>Header.Get\<close> reads the first value or
  the empty string. Both canonicalise the key with
  \<^verbatim>\<open>textproto.CanonicalMIMEHeaderKey\<close>, a function of the standard library that the
  model takes as the parameter \<open>canon\<close>.
\<close>

type_synonym header = "string \<rightharpoonup> string list"

definition Header_Set :: "(string \<Rightarrow> string) \<Rightarrow> header \<Rightarrow> string \<Rightarrow> string \<Rightarrow> header" where
  "Header_Set canon h k v = h(canon k \<mapsto> [v])"

definition Header_Get :: "(string \<Rightarrow> string) \<Rightarrow> header \<Rightarrow> string \<Rightarrow> string" where
  "Header_Get canon h k =
     (case h (canon k) of None \<Rightarrow> [] | Some [] \<Rightarrow> [] | Some (x # xs) \<Rightarrow> x)"

definition Header_Values :: "(string \<Rightarrow> string) \<Rightarrow> header \<Rightarrow> string \<Rightarrow> string list" where
  "Header_Values canon h k = (case h (canon k) of None \<Rightarrow> [] | Some vs \<Rightarrow> vs)"

text \<open>The header map of a request, when the request and its map exist.\<close>

definition header_of :: "world \<Rightarrow> nat \<Rightarrow> header option" where
  "header_of w r =
     (case load w r of
        None \<Rightarrow> None
      | Some rq \<Rightarrow>
          (case Header rq of
             None \<Rightarrow> None
           | Some a \<Rightarrow> if a < length (headers w) then Some (headers w ! a) else None))"

text \<open>
  The write \<^verbatim>\<open>r.Header.Set(k, v)\<close>: it changes the map in the heap of header maps,
  so every request that holds the same map sees it.
\<close>

definition set_header :: "(string \<Rightarrow> string) \<Rightarrow> nat \<Rightarrow> string \<Rightarrow> string \<Rightarrow> world \<Rightarrow> world" where
  "set_header canon a k v w =
     w\<lparr>headers := (headers w)[a := Header_Set canon (headers w ! a) k v]\<rparr>"

text \<open>\<^verbatim>\<open>SetHeader\<close> (middlewares.go, lines 175-186).\<close>

definition SetHeader :: "(string \<Rightarrow> string) \<Rightarrow> string \<Rightarrow> string \<Rightarrow> MiddlewareFunc" where
  "SetHeader canon k v =
     (if k = [] then None
      else Some (\<lambda>next r w.
        (case load w r of
           None \<Rightarrow> (Panicked nil_dereference, w)
         | Some rq \<Rightarrow>
             (case Header rq of
                None \<Rightarrow> (Panicked nil_map_write, w)
              | Some a \<Rightarrow>
                  if a < length (headers w) then next r (set_header canon a k v w)
                  else (Panicked nil_map_write, w)))))"

text \<open>
  \<^verbatim>\<open>UserAgent\<close>, \<^verbatim>\<open>Accept\<close>, \<^verbatim>\<open>ContentType\<close>, \<^verbatim>\<open>Authorization\<close> and
  \<^verbatim>\<open>AuthorizationBearer\<close> (middlewares.go, lines 116-156).
\<close>

definition UserAgent :: "(string \<Rightarrow> string) \<Rightarrow> string \<Rightarrow> MiddlewareFunc" where
  "UserAgent canon v = SetHeader canon ''User-Agent'' v"

definition Accept :: "(string \<Rightarrow> string) \<Rightarrow> string \<Rightarrow> MiddlewareFunc" where
  "Accept canon v = SetHeader canon ''Accept'' v"

definition ContentType :: "(string \<Rightarrow> string) \<Rightarrow> string \<Rightarrow> MiddlewareFunc" where
  "ContentType canon v = SetHeader canon ''Content-Type'' v"

definition Authorization :: "(string \<Rightarrow> string) \<Rightarrow> string \<Rightarrow> MiddlewareFunc" where
  "Authorization canon v = SetHeader canon ''Authorization'' v"

definition AuthorizationBearer :: "(string \<Rightarrow> string) \<Rightarrow> string \<Rightarrow> MiddlewareFunc" where
  "AuthorizationBearer canon v =
     (if v = [] then None else SetHeader canon ''Authorization'' (''Bearer '' @ v))"

subsection \<open>Timeout\<close>

text \<open>
  The package \<^verbatim>\<open>context\<close> of the standard library, as far as \<^verbatim>\<open>Timeout\<close> and
  the readers of the test suite use it. A context ends once, and its error is the
  error of the event that ended it.

  The event that ends a context, with its time: the deadline of a timer context,
  the first call of its cancel function, or the end of its parent, whichever comes
  first. At equal times the parent's event stands before the deadline and the
  deadline before the call of the cancel function.
\<close>

fun earlier :: "(int \<times> ctx_error) option \<Rightarrow> (int \<times> ctx_error) option \<Rightarrow> (int \<times> ctx_error) option" where
  "earlier None b = b"
| "earlier (Some a) None = Some a"
| "earlier (Some (t, e)) (Some (t', e')) = (if t \<le> t' then Some (t, e) else Some (t', e'))"

fun ctx_end :: "world \<Rightarrow> Context \<Rightarrow> (int \<times> ctx_error) option" where
  "ctx_end w Background = None"
| "ctx_end w (TimerCtx i parent deadline) =
     earlier (ctx_end w parent)
       (earlier (Some (deadline, DeadlineExceeded))
          (case cancelled w i of None \<Rightarrow> None | Some t \<Rightarrow> Some (t, Canceled)))"

text \<open>\<^verbatim>\<open>ctx.Err()\<close> at the present time.\<close>

definition ctx_Err :: "world \<Rightarrow> Context \<Rightarrow> ctx_error option" where
  "ctx_Err w c =
     (case ctx_end w c of
        None \<Rightarrow> None
      | Some (t, e) \<Rightarrow> if t \<le> now w then Some e else None)"

text \<open>
  \<^verbatim>\<open>context.WithTimeout(parent, d)\<close>: a new timer context with the deadline
  \<^verbatim>\<open>time.Now().Add(d)\<close>, and its cancel function, given by the context's identity.
  Calling the cancel function a second time changes nothing.
\<close>

definition WithTimeout :: "Context \<Rightarrow> int \<Rightarrow> world \<Rightarrow> Context \<times> nat \<times> world" where
  "WithTimeout parent d w =
     (TimerCtx (next_ctx w) parent (now w + d), next_ctx w, w\<lparr>next_ctx := Suc (next_ctx w)\<rparr>)"

definition cancel :: "nat \<Rightarrow> world \<Rightarrow> world" where
  "cancel i w =
     (case cancelled w i of
        None \<Rightarrow> w\<lparr>cancelled := (cancelled w)(i \<mapsto> now w)\<rparr>
      | Some t \<Rightarrow> w)"

text \<open>\<^verbatim>\<open>r.Context()\<close>: the attached context, or the background context.\<close>

definition Request_Context :: "Request \<Rightarrow> Context" where
  "Request_Context rq = (case ctx rq of None \<Rightarrow> Background | Some c \<Rightarrow> c)"

text \<open>
  \<^verbatim>\<open>r.WithContext(ctx)\<close>: a shallow copy of the request at a new address, with the
  context replaced. The copy holds the same URL and the same header map.
\<close>

definition WithContext :: "Request \<Rightarrow> Context \<Rightarrow> world \<Rightarrow> nat \<times> world" where
  "WithContext rq c w =
     (length (requests w), w\<lparr>requests := requests w @ [rq\<lparr>ctx := Some c\<rparr>]\<rparr>)"

text \<open>
  \<^verbatim>\<open>Timeout\<close> (middlewares.go, lines 95-109). The deferred \<^verbatim>\<open>cancel()\<close> runs when
  \<^verbatim>\<open>next(r)\<close> has returned or panicked.
\<close>

definition Timeout :: "int \<Rightarrow> MiddlewareFunc" where
  "Timeout d =
     (if d \<le> 0 then None
      else Some (\<lambda>next r w.
        (case load w r of
           None \<Rightarrow> (Panicked nil_dereference, w)
         | Some rq \<Rightarrow>
             (case WithTimeout (Request_Context rq) d w of (c, cancel_c, w1) \<Rightarrow>
                (case WithContext rq c w1 of (r2, w2) \<Rightarrow>
                   (case next r2 w2 of (out, w3) \<Rightarrow> (out, cancel cancel_c w3)))))))"

text \<open>
  Reading a response body to its end (\<^verbatim>\<open>io.ReadAll\<close>). The first \<^verbatim>\<open>Read\<close> of a
  \<^verbatim>\<open>delayedReader\<close> with data waits for its timer or for the end of its context,
  whichever comes first, and in the second case returns \<^verbatim>\<open>ctx.Err()\<close>; when both
  are ready at the same time the model takes the context.
\<close>

fun ReadAll :: "body \<Rightarrow> world \<Rightarrow> (error + string) \<times> world" where
  "ReadAll NoBody w = (Inr [], w)"
| "ReadAll (BytesBody d) w = (Inr d, w)"
| "ReadAll (DelayedReader c delay d) w =
     (if d = [] then (Inr [], w)
      else
        (case ctx_end w c of
           None \<Rightarrow> (Inr d, w\<lparr>now := now w + max 0 delay\<rparr>)
         | Some (t, e) \<Rightarrow>
             if t \<le> now w + max 0 delay then (Inl (CtxError e), w\<lparr>now := max (now w) t\<rparr>)
             else (Inr d, w\<lparr>now := now w + max 0 delay\<rparr>)))"

text \<open>
  The executor of the test suite whose response arrives at once and whose body is a
  \<^verbatim>\<open>delayedReader\<close> bound to the context of the request it was given.
\<close>

definition delayed_body_handler :: "int \<Rightarrow> string \<Rightarrow> DoerFunc" where
  "delayed_body_handler delay d = (\<lambda>r w.
     (case load w r of
        None \<Rightarrow> (Panicked nil_dereference, w)
      | Some rq \<Rightarrow>
          (Returned (Some \<lparr>StatusCode = 200, Body = DelayedReader (Request_Context rq) delay d\<rparr>)
             None, w)))"

subsection \<open>StripSlashes\<close>

text \<open>
  \<^verbatim>\<open>strings.HasPrefix\<close>, \<^verbatim>\<open>strings.HasSuffix\<close> and \<^verbatim>\<open>strings.TrimSuffix\<close>.
\<close>

definition HasPrefix :: "string \<Rightarrow> string \<Rightarrow> bool" where
  "HasPrefix s p = (length p \<le> length s \<and> take (length p) s = p)"

definition HasSuffix :: "string \<Rightarrow> string \<Rightarrow> bool" where
  "HasSuffix s suffix =
     (length suffix \<le> length s \<and> drop (length s - length suffix) s = suffix)"

definition TrimSuffix :: "string \<Rightarrow> string \<Rightarrow> string" where
  "TrimSuffix s suffix = (if HasSuffix s suffix then take (length s - length suffix) s else s)"

text \<open>
  \<^verbatim>\<open>path.Clean\<close> of the standard library, which \<^verbatim>\<open>URL.JoinPath\<close> applies to the
  path. It reads the path from left to right and writes to a buffer; \<open>dotdot\<close> is the
  length of the buffer below which a \<^verbatim>\<open>..\<close> element must not cut. \<open>backtrack\<close> is
  the inner loop that moves the end of the buffer back to the last slash:
  \<^verbatim>\<open>for out.w > dotdot && out.index(out.w) != '/' { out.w-- }\<close>.
\<close>

fun backtrack :: "string \<Rightarrow> nat \<Rightarrow> nat \<Rightarrow> nat" where
  "backtrack out dotdot 0 = 0"
| "backtrack out dotdot (Suc n) =
     (if Suc n > dotdot \<and> out ! Suc n \<noteq> CHR ''/'' then backtrack out dotdot n else Suc n)"

function clean_loop :: "bool \<Rightarrow> nat \<Rightarrow> string \<Rightarrow> string \<Rightarrow> string" where
  "clean_loop rooted dotdot out [] = out"
| "clean_loop rooted dotdot out (c # cs) =
     (if c = CHR ''/'' then clean_loop rooted dotdot out cs
      else if c = CHR ''.'' \<and> (cs = [] \<or> hd cs = CHR ''/'') then clean_loop rooted dotdot out cs
      else if c = CHR ''.'' \<and> hd cs = CHR ''.'' \<and> (tl cs = [] \<or> hd (tl cs) = CHR ''/'') then
        (if length out > dotdot then
           clean_loop rooted dotdot (take (backtrack out dotdot (length out - 1)) out) (tl cs)
         else if \<not> rooted then
           (let out' = (if length out > 0 then out @ ''/'' else out) @ ''..''
            in clean_loop rooted (length out') out' (tl cs))
         else clean_loop rooted dotdot out (tl cs))
      else
        (let out' = (if rooted \<and> length out \<noteq> 1 \<or> \<not> rooted \<and> length out \<noteq> 0
                     then out @ ''/'' else out)
         in clean_loop rooted dotdot
              (out' @ takeWhile (\<lambda>x. x \<noteq> CHR ''/'') (c # cs))
              (dropWhile (\<lambda>x. x \<noteq> CHR ''/'') (c # cs))))"
  by pat_completeness auto
termination
proof (relation "measure (\<lambda>(rooted, dotdot, out, rest). length rest)")
  show "wf (measure (\<lambda>(rooted, dotdot, out, rest). length rest))" by simp
next
  fix rooted :: bool and dotdot :: nat and out :: string and c :: char and cs :: string
    and x :: string
  assume "c \<noteq> CHR ''/''"
  then have "length (dropWhile (\<lambda>x. x \<noteq> CHR ''/'') (c # cs)) \<le> length cs"
    by (simp add: length_dropWhile_le)
  then show "((rooted, dotdot, x @ takeWhile (\<lambda>x. x \<noteq> CHR ''/'') (c # cs),
                dropWhile (\<lambda>x. x \<noteq> CHR ''/'') (c # cs)),
               rooted, dotdot, out, c # cs)
             \<in> measure (\<lambda>(rooted, dotdot, out, rest). length rest)"
    by simp
qed (auto simp: less_Suc_eq_le)

definition Clean :: "string \<Rightarrow> string" where
  "Clean path =
     (if path = [] then ''.''
      else
        (let rooted = (hd path = CHR ''/'');
             out = (if rooted
                    then clean_loop True 1 ''/'' (tl path)
                    else clean_loop False 0 [] path)
         in if out = [] then ''.'' else out))"

text \<open>
  \<^verbatim>\<open>path.Join\<close>: the elements are joined with slashes, leading empty elements
  left out, and the result is cleaned; no bytes at all give the empty string.
\<close>

fun join_elems :: "string \<Rightarrow> string list \<Rightarrow> string" where
  "join_elems buf [] = buf"
| "join_elems buf (e # es) =
     join_elems
       (if length buf > 0 \<or> e \<noteq> []
        then (if length buf > 0 then buf @ ''/'' else buf) @ e
        else buf) es"

definition Join :: "string list \<Rightarrow> string" where
  "Join elem = (if sum_list (map length elem) = 0 then [] else Clean (join_elems [] elem))"

text \<open>
  \<^verbatim>\<open>URL.JoinPath\<close> of the standard library. Paths are modelled in their escaped
  form, so \<^verbatim>\<open>EscapedPath\<close> reads the field \<open>Path\<close> and \<^verbatim>\<open>setPath\<close> writes it;
  a URL whose \<^verbatim>\<open>RawPath\<close> differs from its \<^verbatim>\<open>Path\<close> is outside the model. The
  result is a new URL object: the receiver is not written.
\<close>

definition JoinPath :: "URL \<Rightarrow> string list \<Rightarrow> URL" where
  "JoinPath u elems =
     (let e0 = Path u;
          relative = \<not> HasPrefix e0 ''/'';
          elem = (if relative then ''/'' @ e0 else e0) # elems;
          p = (if relative then drop 1 (Join elem) else Join elem);
          p' = (if HasSuffix (last elem) ''/'' \<and> \<not> HasSuffix p ''/'' then p @ ''/'' else p)
      in u\<lparr>Path := p'\<rparr>)"

text \<open>
  \<^verbatim>\<open>StripSlashes\<close> (middlewares.go, lines 63-75). It assigns the new URL to the
  field of the request it was given.
\<close>

definition strip_url :: "bool \<Rightarrow> URL \<Rightarrow> URL" where
  "strip_url stripTrailing u =
     (let u1 = JoinPath u []
      in if stripTrailing \<and> length (Path u1) > 1 \<and> HasSuffix (Path u1) ''/''
         then u1\<lparr>Path := TrimSuffix (Path u1) ''/''\<rparr>
         else u1)"



text \<open>The elements of a path: the pieces between its separators.\<close>

fun elements :: "string \<Rightarrow> string list" where
  "elements [] = [[]]"
| "elements (c # cs) =
     (if c = CHR ''/'' then [] # elements cs
      else (case elements cs of e # es \<Rightarrow> (c # e) # es | [] \<Rightarrow> [[c]]))"

fun double_slash :: "string \<Rightarrow> bool" where
  "double_slash (c # d # cs) = (c = CHR ''/'' \<and> d = CHR ''/'' \<or> double_slash (d # cs))"
| "double_slash _ = False"

text \<open>
  What \<^verbatim>\<open>path.Clean\<close> computes on a rooted path, said with a stack of elements:
  an empty element and \<^verbatim>\<open>.\<close> are dropped, \<^verbatim>\<open>..\<close> removes the element on top of
  the stack (nothing at the root), any other element is pushed. The stack is written
  out with a slash before each element, the empty stack as the root.
\<close>

fun resolve :: "string list \<Rightarrow> string list \<Rightarrow> string list" where
  "resolve st [] = st"
| "resolve st (e # es) =
     (if e = [] \<or> e = ''.'' then resolve st es
      else if e = ''..'' then resolve (butlast st) es
      else resolve (st @ [e]) es)"

definition render :: "string list \<Rightarrow> string" where
  "render st = (if st = [] then ''/'' else concat (map (\<lambda>e. CHR ''/'' # e) st))"

definition wf_stack :: "string list \<Rightarrow> bool" where
  "wf_stack st = (\<forall>e \<in> set st. e \<noteq> [] \<and> CHR ''/'' \<notin> set e)"

text \<open>The path that \<^verbatim>\<open>JoinPath()\<close> sets, in terms of the stack of elements.\<close>

definition joined :: "string \<Rightarrow> string" where
  "joined e0 =
     (let relative = \<not> HasPrefix e0 ''/'';
          t = (if relative then e0 else tl e0);
          cleaned = render (resolve [] (elements t));
          p = (if relative then drop 1 cleaned else cleaned)
      in if HasSuffix (if relative then ''/'' @ e0 else e0) ''/'' \<and> \<not> HasSuffix p ''/''
         then p @ ''/'' else p)"


text \<open>The URL of the test suite, \<^verbatim>\<open>http://example.com///v1//foo/?q=foo#anchor\<close>.\<close>

definition url0 :: URL where
  "url0 = \<lparr>Scheme = ''http'', Host = ''example.com'', Path = ''///v1//foo/'',
           RawQuery = ''q=foo'', Fragment = ''anchor''\<rparr>"

section \<open>Sample inputs\<close>

text \<open>
  The request of the test suite, \<^verbatim>\<open>http.NewRequest(http.MethodGet, "http://localhost",
  http.NoBody)\<close>, at address 0 of a state in which nothing else has happened, and the
  same request with an \<^verbatim>\<open>https\<close> URL.
\<close>

definition request0 :: Request where
  "request0 =
     \<lparr>Method = ''GET'',
      Url = Some \<lparr>Scheme = ''http'', Host = ''localhost'', Path = [], RawQuery = [],
                  Fragment = []\<rparr>,
      Header = Some 0,
      ctx = None\<rparr>"

definition world0 :: world where
  "world0 =
     \<lparr>requests = [request0], headers = [Map.empty], now = 0, cancelled = Map.empty,
      next_ctx = 0, trace = [], frames = []\<rparr>"

definition secure_request0 :: Request where
  "secure_request0 =
     request0\<lparr>Url := Some \<lparr>Scheme = ''https'', Host = ''localhost'', Path = [],
                             RawQuery = [], Fragment = []\<rparr>\<rparr>"

definition secure_world0 :: world where
  "secure_world0 = world0\<lparr>requests := [secure_request0]\<rparr>"

text \<open>The identities of the timer contexts a context is derived from.\<close>

fun ctx_ids :: "Context \<Rightarrow> nat list" where
  "ctx_ids Background = []"
| "ctx_ids (TimerCtx i parent deadline) = i # ctx_ids parent"

section \<open>Properties of chain composition\<close>

lemma applyMiddlewares_loop_nest:
  "n \<le> length mws \<Longrightarrow> applyMiddlewares_loop mws n do = nest (take n mws) do"
proof (induction n arbitrary: do)
  case 0
  show ?case by simp
next
  case (Suc n)
  have nest_snoc: "nest (xs @ [m]) d = nest xs (nest [m] d)" for xs m d
    by (induction xs d rule: nest.induct) simp_all
  from Suc.prems have lt: "n < length mws" by simp
  then have tk: "take (Suc n) mws = take n mws @ [mws ! n]"
    by (simp add: take_Suc_conv_app_nth)
  show ?case
  proof (cases "mws ! n")
    case None
    with Suc.IH [of do] lt tk show ?thesis by (simp add: nest_snoc)
  next
    case (Some mw)
    with Suc.IH [of "mw do"] lt tk show ?thesis by (simp add: nest_snoc)
  qed
qed

lemma applyMiddlewares_nest: "applyMiddlewares do mws = nest mws do"
  by (simp add: applyMiddlewares_def applyMiddlewares_loop_nest)

lemma nest_append_None: "nest (xs @ None # ys) do = nest (xs @ ys) do"
  by (induction xs do rule: nest.induct) simp_all

lemma nest_filter: "nest (filter (\<lambda>m. m \<noteq> None) mws) do = nest mws do"
  by (induction mws do rule: nest.induct) simp_all

lemma record_events_Nil: "record_events [] w = w"
  by (simp add: record_events_def)

lemma record_events_Cons: "record_events es (record_event e w) = record_events (e # es) w"
  by (simp add: record_events_def record_event_def)

lemma record_event_events: "record_event e (record_events es w) = record_events (es @ [e]) w"
  by (simp add: record_events_def record_event_def)

lemma nest_recording:
  "nest (map recording ls) do r w = unwind ls (do r (record_events (map Before ls) w))"
proof (induction ls arbitrary: w)
  case Nil
  show ?case
    by (cases "do r w" rule: prod.exhaust [case_names Pair])
       (auto simp: unwind_def record_events_Nil split: outcome.splits)
next
  case (Cons l ls)
  obtain out w' where b: "do r (record_events (map Before (l # ls)) w) = (out, w')"
    by (cases "do r (record_events (map Before (l # ls)) w)") auto
  have "nest (map recording (l # ls)) do r w =
        (case nest (map recording ls) do r (record_event (Before l) w) of
           (Returned resp err, w') \<Rightarrow> (Returned resp err, record_event (After l) w')
         | (Panicked v, w') \<Rightarrow> (Panicked v, w'))"
    by (simp add: recording_def)
  also have "nest (map recording ls) do r (record_event (Before l) w) =
        unwind ls (do r (record_events (map Before (l # ls)) w))"
    by (simp add: Cons.IH record_events_Cons)
  finally show ?case
    using b by (cases out) (simp_all add: unwind_def record_event_events)
qed

text \<open>
  C9. Composing a base executor with the empty list of middlewares gives the base
  executor itself.
\<close>

theorem applyMiddlewares_empty: "applyMiddlewares do [] = do"
  by (simp add: applyMiddlewares_def)

theorem applyMiddlewares_empty_witness:
  "applyMiddlewares (spy ''base'' None None) [] = spy ''base'' None None"
  using applyMiddlewares_empty [of "spy ''base'' None None"] by simp

text \<open>
  C1. The composed executor nests the middlewares in list order around the base
  executor: the first middleware of the list is outermost, a nil entry adds nothing.
  For the recording middlewares \<open>l\<^sub>1, \<dots>, l\<^sub>n\<close> around any base executor, a call
  records \<open>Before l\<^sub>1, \<dots>, Before l\<^sub>n\<close>, then runs the base executor, and when that
  returns records \<open>After l\<^sub>n, \<dots>, After l\<^sub>1\<close>.
\<close>

theorem applyMiddlewares_order:
  "applyMiddlewares do mws =
     foldr (\<lambda>m ch. case m of None \<Rightarrow> ch | Some mw \<Rightarrow> mw ch) mws do \<and>
   applyMiddlewares do (map recording ls) r w =
     unwind ls (do r (record_events (map Before ls) w))"
proof
  have "nest mws do = foldr (\<lambda>m ch. case m of None \<Rightarrow> ch | Some mw \<Rightarrow> mw ch) mws do"
    by (induction mws do rule: nest.induct) simp_all
  then show "applyMiddlewares do mws =
      foldr (\<lambda>m ch. case m of None \<Rightarrow> ch | Some mw \<Rightarrow> mw ch) mws do"
    by (simp add: applyMiddlewares_nest)
  show "applyMiddlewares do (map recording ls) r w =
     unwind ls (do r (record_events (map Before ls) w))"
    by (simp add: applyMiddlewares_nest nest_recording)
qed

theorem applyMiddlewares_order_witness:
  "trace (snd (applyMiddlewares (spy ''base'' None None)
      [recording ''A'', recording ''B'', recording ''C''] 0 world0)) =
   [Before ''A'', Before ''B'', Before ''C'', Invoked ''base'',
    After ''C'', After ''B'', After ''A'']"
  using applyMiddlewares_order [of "spy ''base'' None None"
      "[recording ''A'', recording ''B'', recording ''C'']" "[''A'', ''B'', ''C'']" 0 world0,
      THEN conjunct2]
  by (simp add: unwind_def spy_def record_events_def record_event_def world0_def)

text \<open>
  C4. The constructors return the nil middleware for a vacuous configuration (an
  empty header key, an empty bearer token, a duration that is not positive), and
  composition leaves nil entries out: a chain with such an entry is the chain
  without it, the other middlewares in their order.
\<close>

theorem vacuous_middlewares_elided:
  "SetHeader canon [] v = None \<and>
   AuthorizationBearer canon [] = None \<and>
   (d \<le> 0 \<longrightarrow> Timeout d = None) \<and>
   applyMiddlewares do (xs @ None # ys) = applyMiddlewares do (xs @ ys) \<and>
   applyMiddlewares do mws = applyMiddlewares do (filter (\<lambda>m. m \<noteq> None) mws)"
  by (simp add: SetHeader_def AuthorizationBearer_def Timeout_def applyMiddlewares_nest
      nest_append_None nest_filter del: not_None_eq)

theorem vacuous_middlewares_elided_witness:
  "Timeout 0 = None \<and> Timeout (- 5) = None \<and>
   applyMiddlewares (spy ''base'' None None)
     ([recording ''A''] @ SetHeader (\<lambda>k. k) [] ''bar'' # [recording ''B'']) =
   applyMiddlewares (spy ''base'' None None) ([recording ''A''] @ [recording ''B'']) \<and>
   applyMiddlewares (spy ''base'' None None) [recording ''A'', Timeout 0, recording ''B''] =
   applyMiddlewares (spy ''base'' None None) [recording ''A'', recording ''B'']"
  using vacuous_middlewares_elided [of "\<lambda>k. k" "''bar''" 0 "spy ''base'' None None"
      "[recording ''A'']" "[recording ''B'']" "[recording ''A'', Timeout 0, recording ''B'']"]
    vacuous_middlewares_elided [of "\<lambda>k. k" "''bar''" "- 5" "spy ''base'' None None"
      "[recording ''A'']" "[recording ''B'']" "[recording ''A'', Timeout 0, recording ''B'']"]
  by (simp add: recording_def)

section \<open>Properties of the wrappers\<close>

text \<open>
  C2. \<^verbatim>\<open>With\<close> on a wrapper with base \<open>B\<close> and middlewares \<open>ps\<close> allocates a new
  wrapper with the same base, the middlewares \<open>ps @ mws\<close> and their composition
  around \<open>B\<close> as its chain. Every wrapper that existed before, the parent among
  them, is unchanged, and so is what the parent's \<^verbatim>\<open>Do\<close> (or \<^verbatim>\<open>RoundTrip\<close>) runs.
\<close>

theorem With_derives:
  assumes "c < length h" and "t < length g"
  shows "(case Client_With c mws h of Inl e \<Rightarrow> False | Inr (c', h') \<Rightarrow>
            c' \<noteq> c \<and> c' < length h' \<and> take (length h) h' = h \<and>
            h' ! c = h ! c \<and>
            Client_Do h' c = Client_Do h c \<and>
            base (h' ! c') = base (h ! c) \<and>
            middlewares (h' ! c') = middlewares (h ! c) @ mws \<and>
            chain (h' ! c') = applyMiddlewares (base (h ! c)) (middlewares (h ! c) @ mws) \<and>
            Client_Do h' c' = applyMiddlewares (base (h ! c)) (middlewares (h ! c) @ mws)) \<and>
         (case RoundTripper_With t mws g of Inl e \<Rightarrow> False | Inr (t', g') \<Rightarrow>
            t' \<noteq> t \<and> t' < length g' \<and> take (length g) g' = g \<and>
            g' ! t = g ! t \<and>
            RoundTripper_RoundTrip g' t = RoundTripper_RoundTrip g t \<and>
            rt_base (g' ! t') = rt_base (g ! t) \<and>
            rt_middlewares (g' ! t') = rt_middlewares (g ! t) @ mws \<and>
            rt_chain (g' ! t') =
              applyMiddlewares (rt_base (g ! t)) (rt_middlewares (g ! t) @ mws) \<and>
            RoundTripper_RoundTrip g' t' =
              applyMiddlewares (rt_base (g ! t)) (rt_middlewares (g ! t) @ mws))"
  using assms
  by (simp add: Client_With_def NewClient_def Client_Do_def RoundTripper_With_def
      NewRoundTripper_def RoundTripper_RoundTrip_def nth_append)

theorem With_derives_witness:
  "(case Client_With 0 [recording ''n1'']
          (snd (NewClient (spy ''B'' None None) [recording ''p1''] [])) of
      Inl e \<Rightarrow> False
    | Inr (c', h') \<Rightarrow>
        c' = 1 \<and> length h' = 2 \<and>
        h' ! 0 = snd (NewClient (spy ''B'' None None) [recording ''p1''] []) ! 0 \<and>
        base (h' ! c') = spy ''B'' None None \<and>
        middlewares (h' ! c') = [recording ''p1'', recording ''n1''] \<and>
        Client_Do h' c' =
          applyMiddlewares (spy ''B'' None None) [recording ''p1'', recording ''n1'']) \<and>
   (case RoundTripper_With 0 [recording ''n1'']
          (snd (NewRoundTripper (spy ''B'' None None) [recording ''p1''] [])) of
      Inl e \<Rightarrow> False
    | Inr (t', g') \<Rightarrow>
        t' = 1 \<and> length g' = 2 \<and>
        g' ! 0 = snd (NewRoundTripper (spy ''B'' None None) [recording ''p1''] []) ! 0 \<and>
        rt_base (g' ! t') = spy ''B'' None None \<and>
        rt_middlewares (g' ! t') = [recording ''p1'', recording ''n1''] \<and>
        RoundTripper_RoundTrip g' t' =
          applyMiddlewares (spy ''B'' None None) [recording ''p1'', recording ''n1''])"
proof -
  have c: "0 < length (snd (NewClient (spy ''B'' None None) [recording ''p1''] []))"
    by (simp add: NewClient_def)
  have t: "0 < length (snd (NewRoundTripper (spy ''B'' None None) [recording ''p1''] []))"
    by (simp add: NewRoundTripper_def)
  show ?thesis
    using With_derives [OF c t, of "[recording ''n1'']"]
    by (simp add: NewClient_def NewRoundTripper_def Client_With_def RoundTripper_With_def
        Client_Do_def RoundTripper_RoundTrip_def)
qed

section \<open>Properties of the built-in middlewares\<close>

declare errors_Is.simps [simp del]

lemma errors_Is_PanicError: "errors_Is (PanicError v st) ErrPanicRecovered"
  by (subst errors_Is.simps, simp, subst errors_Is.simps, simp)

text \<open>
  C5. Around any executor, \<^verbatim>\<open>Recover\<close> turns a panic with payload \<open>v\<close> into the
  returned error \<^verbatim>\<open>&PanicError{Recovered: v, Stack: debug.Stack()}\<close>, which
  \<^verbatim>\<open>errors.Is\<close> matches against \<^verbatim>\<open>ErrPanicRecovered\<close> and whose stack is not
  empty; a call that returns, with an error or without, is passed on as it is.
\<close>

theorem Recover_converts_panics:
  "(nxt r w = (Panicked v, w') \<longrightarrow>
      applyMiddlewares nxt [Recover] r w =
        (Returned None (Some (PanicError v (debug_Stack w'))), w') \<and>
      errors_Is (PanicError v (debug_Stack w')) ErrPanicRecovered \<and>
      Recovered (PanicError v (debug_Stack w')) = Some v \<and>
      Stack (PanicError v (debug_Stack w')) \<noteq> []) \<and>
   (nxt r w = (Returned resp err, w') \<longrightarrow>
      applyMiddlewares nxt [Recover] r w = (Returned resp err, w'))"
  by (simp add: Recover_def applyMiddlewares_nest errors_Is_PanicError debug_Stack_def)

theorem Recover_converts_panics_witness:
  "applyMiddlewares (\<lambda>r w. (Panicked (AnyString ''boom''), w)) [Recover] 0 world0 =
     (Returned None (Some (PanicError (AnyString ''boom'') (debug_Stack world0))), world0) \<and>
   errors_Is (PanicError (AnyString ''boom'') (debug_Stack world0)) ErrPanicRecovered \<and>
   Recovered (PanicError (AnyString ''boom'') (debug_Stack world0)) = Some (AnyString ''boom'') \<and>
   Stack (PanicError (AnyString ''boom'') (debug_Stack world0)) \<noteq> [] \<and>
   applyMiddlewares (\<lambda>r w. (Returned None (Some (OtherError ''doer failure'')), w)) [Recover]
     0 world0 = (Returned None (Some (OtherError ''doer failure'')), world0)"
  using Recover_converts_panics [of "\<lambda>r w. (Panicked (AnyString ''boom''), w)" 0 world0
      "AnyString ''boom''" world0 None None]
    Recover_converts_panics [of "\<lambda>r w. (Returned None (Some (OtherError ''doer failure'')), w)"
      0 world0 "AnyString ''boom''" world0 None "Some (OtherError ''doer failure'')"]
  by simp

text \<open>
  C6. For a request with a URL, \<^verbatim>\<open>Secure\<close> returns \<^verbatim>\<open>ErrInsecureScheme\<close> when the
  scheme is not \<^verbatim>\<open>https\<close>, and the state is as it was before the call: the wrapped
  executor has not run, a spy has recorded nothing. When the scheme is \<^verbatim>\<open>https\<close>
  the call is the call of the wrapped executor on the same request and state.
\<close>

theorem Secure_checks_scheme:
  "load w r = Some rq \<Longrightarrow> Url rq = Some u \<Longrightarrow>
   (Scheme u \<noteq> ''https'' \<longrightarrow>
      applyMiddlewares nxt [Secure] r w = (Returned None (Some ErrInsecureScheme), w) \<and>
      trace (snd (applyMiddlewares (spy l resp err) [Secure] r w)) = trace w) \<and>
   (Scheme u = ''https'' \<longrightarrow> applyMiddlewares nxt [Secure] r w = nxt r w)"
  by (simp add: Secure_def applyMiddlewares_nest)

theorem Secure_checks_scheme_witness:
  "applyMiddlewares (spy ''base'' None None) [Secure] 0 world0 =
     (Returned None (Some ErrInsecureScheme), world0) \<and>
   trace (snd (applyMiddlewares (spy ''base'' None None) [Secure] 0 world0)) = [] \<and>
   applyMiddlewares (spy ''base'' None None) [Secure] 0 secure_world0 =
     (Returned None None, record_event (Invoked ''base'') secure_world0)"
proof -
  have l: "load world0 0 = Some request0"
    by (simp add: load_def world0_def)
  have u: "Url request0 =
      Some \<lparr>Scheme = ''http'', Host = ''localhost'', Path = [], RawQuery = [], Fragment = []\<rparr>"
    by (simp add: request0_def)
  have l': "load secure_world0 0 = Some secure_request0"
    by (simp add: load_def secure_world0_def world0_def)
  have u': "Url secure_request0 =
      Some \<lparr>Scheme = ''https'', Host = ''localhost'', Path = [], RawQuery = [], Fragment = []\<rparr>"
    by (simp add: secure_request0_def)
  show ?thesis
    using Secure_checks_scheme [OF l u, of "spy ''base'' None None" "''base''" None None]
      Secure_checks_scheme [OF l' u', of "spy ''base'' None None" "''base''" None None]
    by (simp add: spy_def world0_def)
qed

text \<open>
  C8. \<^verbatim>\<open>SetHeader(k, v)\<close> is the nil middleware exactly when the key is empty,
  whatever the value. With a key that is not empty it is installed, also for the
  empty value, and on a request with a header map it replaces the values of the key
  by the single value \<open>v\<close> before calling the wrapped executor: \<^verbatim>\<open>Get\<close> then reads
  \<open>v\<close>, nothing is left of earlier values, and the other keys keep theirs.
\<close>

theorem SetHeader_overwrites:
  "(SetHeader canon k v = None) = (k = []) \<and>
   (k \<noteq> [] \<longrightarrow> load w r = Some rq \<longrightarrow> Header rq = Some a \<longrightarrow> a < length (headers w) \<longrightarrow>
      applyMiddlewares nxt [SetHeader canon k v] r w = nxt r (set_header canon a k v w) \<and>
      requests (set_header canon a k v w) = requests w \<and>
      (case header_of (set_header canon a k v w) r of
         None \<Rightarrow> False
       | Some h \<Rightarrow>
           Header_Values canon h k = [v] \<and> Header_Get canon h k = v \<and>
           (\<forall>k'. canon k' \<noteq> canon k \<longrightarrow> h (canon k') = (headers w ! a) (canon k'))))"
  by (auto simp: SetHeader_def applyMiddlewares_nest set_header_def header_of_def load_def
      Header_Set_def Header_Values_def Header_Get_def)

theorem SetHeader_overwrites_witness:
  "SetHeader (\<lambda>k. k) [] ''bar'' = None \<and>
   SetHeader (\<lambda>k. k) ''X-Foo'' [] \<noteq> None \<and>
   header_of (snd (applyMiddlewares (spy ''base'' None None)
       [SetHeader (\<lambda>k. k) ''X-Foo'' ''foo''] 0
       (world0\<lparr>headers := [[''X-Foo'' \<mapsto> [''old'', ''older'']]]\<rparr>))) 0 =
     Some [''X-Foo'' \<mapsto> [''foo'']] \<and>
   header_of (snd (applyMiddlewares (spy ''base'' None None)
       [SetHeader (\<lambda>k. k) ''X-Foo'' []] 0
       (world0\<lparr>headers := [[''X-Foo'' \<mapsto> [''old'', ''older'']]]\<rparr>))) 0 =
     Some [''X-Foo'' \<mapsto> [[]]]"
proof -
  let ?w = "world0\<lparr>headers := [[''X-Foo'' \<mapsto> [''old'', ''older'']]]\<rparr>"
  have l: "load ?w 0 = Some request0" by (simp add: load_def world0_def)
  have h: "Header request0 = Some 0" by (simp add: request0_def)
  have a: "0 < length (headers ?w)" by simp
  have k: "''X-Foo'' \<noteq> []" by simp
  show ?thesis
    using SetHeader_overwrites [of "\<lambda>k. k" "[]" "''bar''"]
      SetHeader_overwrites [of "\<lambda>k. k" "''X-Foo''" "[]" ?w 0 request0 0
        "spy ''base'' None None"]
      SetHeader_overwrites [of "\<lambda>k. k" "''X-Foo''" "''foo''" ?w 0 request0 0
        "spy ''base'' None None"]
      l h a k
    by (simp add: spy_def world0_def load_def request0_def set_header_def header_of_def
        Header_Set_def record_event_def)
qed

lemma ctx_end_cancel:
  "i \<notin> set (ctx_ids c) \<Longrightarrow> ctx_end (cancel i w) c = ctx_end w c"
  by (induction c) (auto simp: cancel_def split: option.splits)

lemma requests_cancel: "requests (cancel i w) = requests w"
  by (simp add: cancel_def split: option.splits)

lemma headers_cancel: "headers (cancel i w) = headers w"
  by (simp add: cancel_def split: option.splits)

text \<open>
  C10. For a positive duration and a request \<open>r\<close>, \<^verbatim>\<open>Timeout\<close> allocates a copy of
  the request at a new address \<open>r2\<close>, attaches the derived context to the copy, and
  calls the wrapped executor on \<open>r2\<close> in a state in which the object at \<open>r\<close> is as
  it was. After that call it only runs the cancel function of the derived context,
  which writes no request and no header map. So when the wrapped executor leaves
  the object at \<open>r\<close> alone, the object is after the call what it was before, its
  attached context included; and the cancel function does not end that context.
\<close>

theorem Timeout_leaves_request:
  assumes "0 < d" and "load w r = Some rq"
  shows "let c = TimerCtx (next_ctx w) (Request_Context rq) (now w + d);
             r2 = length (requests w);
             w2 = w\<lparr>next_ctx := Suc (next_ctx w), requests := requests w @ [rq\<lparr>ctx := Some c\<rparr>]\<rparr>
         in r2 \<noteq> r \<and> load w2 r = Some rq \<and> load w2 r2 = Some (rq\<lparr>ctx := Some c\<rparr>) \<and>
            applyMiddlewares nxt [Timeout d] r w =
              (case nxt r2 w2 of (out, w3) \<Rightarrow> (out, cancel (next_ctx w) w3)) \<and>
            (\<forall>w3. requests (cancel (next_ctx w) w3) = requests w3 \<and>
                  headers (cancel (next_ctx w) w3) = headers w3) \<and>
            (load (snd (nxt r2 w2)) r = Some rq \<longrightarrow>
               load (snd (applyMiddlewares nxt [Timeout d] r w)) r = Some rq) \<and>
            (\<forall>w3. next_ctx w \<notin> set (ctx_ids (Request_Context rq)) \<longrightarrow>
                  ctx_end (cancel (next_ctx w) w3) (Request_Context rq) =
                  ctx_end w3 (Request_Context rq))"
  using assms
  by (auto simp: Let_def Timeout_def applyMiddlewares_nest load_def WithTimeout_def
      WithContext_def nth_append requests_cancel headers_cancel ctx_end_cancel
      split: prod.splits if_splits)

theorem Timeout_leaves_request_witness:
  "applyMiddlewares (spy ''base'' None None) [Timeout 10] 0 world0 =
     (Returned None None,
      world0\<lparr>requests := [request0, request0\<lparr>ctx := Some (TimerCtx 0 Background 10)\<rparr>],
             next_ctx := 1, trace := [Invoked ''base''], cancelled := [0 \<mapsto> 0]\<rparr>) \<and>
   load (snd (applyMiddlewares (spy ''base'' None None) [Timeout 10] 0 world0)) 0 =
     Some request0"
proof -
  have d: "(0::int) < 10" by simp
  have l: "load world0 0 = Some request0" by (simp add: load_def world0_def)
  show ?thesis
    using Timeout_leaves_request [OF d l, of "spy ''base'' None None"]
    by (simp add: Let_def spy_def record_event_def world0_def cancel_def load_def
        Request_Context_def request0_def)
qed

text \<open>
  C3, on the code as it is. The wrapped executor of the test
  \<^verbatim>\<open>delayed body read exceeding timeout\<close> returns at once a response whose body
  waits 15 seconds on the context of the request; the timeout is 10 seconds. The
  deferred \<^verbatim>\<open>cancel()\<close> has run when the chain returns, so the read that follows
  fails at once, at time 0, with \<^verbatim>\<open>context.Canceled\<close>, not after 10 seconds with
  \<^verbatim>\<open>context.DeadlineExceeded\<close>. The same happens to the body of the test
  \<^verbatim>\<open>delayed body read within timeout\<close>, which waits 3 seconds.
\<close>

theorem Timeout_cancels_on_return:
  "(case applyMiddlewares (delayed_body_handler 15000000000 ''Some stubbed stuff.'')
           [Timeout 10000000000] 0 world0 of
      (Returned (Some resp) None, w') \<Rightarrow>
        now w' = 0 \<and> ReadAll (Body resp) w' = (Inl (CtxError Canceled), w')
    | _ \<Rightarrow> False) \<and>
   (case applyMiddlewares (delayed_body_handler 3000000000 ''Some stubbed stuff.'')
           [Timeout 10000000000] 0 world0 of
      (Returned (Some resp) None, w') \<Rightarrow>
        now w' = 0 \<and> ReadAll (Body resp) w' = (Inl (CtxError Canceled), w')
    | _ \<Rightarrow> False)"
  by (simp add: applyMiddlewares_nest Timeout_def delayed_body_handler_def load_def
      world0_def WithTimeout_def WithContext_def cancel_def Request_Context_def request0_def)

lemma now_cancel: "now (cancel i w) = now w"
  by (simp add: cancel_def split: option.splits)

lemma earlier_right_le:
  "\<exists>t' e'. earlier a (Some (t, e)) = Some (t', e') \<and> t' \<le> t"
  by (cases a) auto

text \<open>
  What the deferred \<^verbatim>\<open>cancel()\<close> means in general: when the call of the chain is
  over, the context that \<^verbatim>\<open>Timeout\<close> attached to the forwarded request has ended,
  whatever the wrapped executor did (short of calling the cancel function, which it
  is not given). If the parent context has not ended and the deadline has not
  passed, its error is \<^verbatim>\<open>context.Canceled\<close>.
\<close>

theorem Timeout_context_ended_on_return:
  assumes "0 < d" and "load w r = Some rq"
    and "c = TimerCtx (next_ctx w) (Request_Context rq) (now w + d)"
    and "nxt (length (requests w))
           (w\<lparr>next_ctx := Suc (next_ctx w), requests := requests w @ [rq\<lparr>ctx := Some c\<rparr>]\<rparr>) =
         (out, w3)"
    and "cancelled w3 (next_ctx w) = None"
  shows "ctx_Err (snd (applyMiddlewares nxt [Timeout d] r w)) c \<noteq> None \<and>
         (ctx_end w3 (Request_Context rq) = None \<longrightarrow>
          next_ctx w \<notin> set (ctx_ids (Request_Context rq)) \<longrightarrow>
          now w3 < now w + d \<longrightarrow>
            ctx_Err (snd (applyMiddlewares nxt [Timeout d] r w)) c = Some Canceled)"
proof -
  let ?i = "next_ctx w"
  let ?p = "Request_Context rq"
  have fin: "snd (applyMiddlewares nxt [Timeout d] r w) = cancel ?i w3"
    using assms
    by (simp add: applyMiddlewares_nest Timeout_def WithTimeout_def WithContext_def)
  have reg: "cancelled (cancel ?i w3) ?i = Some (now w3)"
    using assms(5) by (simp add: cancel_def)
  have e: "ctx_end (cancel ?i w3) c =
      earlier (ctx_end (cancel ?i w3) ?p)
        (earlier (Some (now w + d, DeadlineExceeded)) (Some (now w3, Canceled)))"
    using reg assms(3) by simp
  obtain t1 e1 where 1: "earlier (Some (now w + d, DeadlineExceeded)) (Some (now w3, Canceled)) =
      Some (t1, e1)" "t1 \<le> now w3"
    using earlier_right_le by blast
  obtain t2 e2 where 2: "ctx_end (cancel ?i w3) c = Some (t2, e2)" "t2 \<le> now w3"
    using earlier_right_le [of "ctx_end (cancel ?i w3) ?p" t1 e1] 1 e by auto
  have a: "ctx_Err (cancel ?i w3) c \<noteq> None"
    using 2 by (simp add: ctx_Err_def now_cancel)
  have b: "ctx_Err (cancel ?i w3) c = Some Canceled"
    if "ctx_end w3 ?p = None" "?i \<notin> set (ctx_ids ?p)" "now w3 < now w + d"
    using that e by (simp add: ctx_Err_def now_cancel ctx_end_cancel)
  show ?thesis using a b by (simp add: fin)
qed

theorem Timeout_context_ended_on_return_witness:
  "ctx_Err (snd (applyMiddlewares (spy ''base'' None None) [Timeout 10] 0 world0))
     (TimerCtx 0 Background 10) = Some Canceled"
proof -
  have d: "(0::int) < 10" by simp
  have l: "load world0 0 = Some request0" by (simp add: load_def world0_def)
  have c: "TimerCtx 0 Background 10 =
      TimerCtx (next_ctx world0) (Request_Context request0) (now world0 + 10)"
    by (simp add: world0_def Request_Context_def request0_def)
  have n: "spy ''base'' None None (length (requests world0))
      (world0\<lparr>next_ctx := Suc (next_ctx world0),
         requests := requests world0 @ [request0\<lparr>ctx := Some (TimerCtx 0 Background 10)\<rparr>]\<rparr>) =
      (Returned None None,
       record_event (Invoked ''base'')
        (world0\<lparr>next_ctx := Suc (next_ctx world0),
           requests := requests world0 @ [request0\<lparr>ctx := Some (TimerCtx 0 Background 10)\<rparr>]\<rparr>))"
    by (simp add: spy_def)
  have k: "cancelled (record_event (Invoked ''base'')
        (world0\<lparr>next_ctx := Suc (next_ctx world0),
           requests := requests world0 @ [request0\<lparr>ctx := Some (TimerCtx 0 Background 10)\<rparr>]\<rparr>))
      (next_ctx world0) = None"
    by (simp add: record_event_def world0_def)
  show ?thesis
    using Timeout_context_ended_on_return [where nxt = "spy ''base'' None None" and w = world0
        and r = 0 and rq = request0 and d = 10 and c = "TimerCtx 0 Background 10",
        OF d l c n k]
    by (simp add: record_event_def world0_def Request_Context_def request0_def)
qed

subsection \<open>StripSlashes\<close>



lemma elements_split:
  "elements s = takeWhile (\<lambda>x. x \<noteq> CHR ''/'') s #
     (case dropWhile (\<lambda>x. x \<noteq> CHR ''/'') s of [] \<Rightarrow> [] | x # t \<Rightarrow> elements t)"
  by (induction s) (auto split: list.splits)

lemma elements_not_Nil [simp]: "elements s \<noteq> []"
  by (induction s) (auto split: list.splits)

lemma resolve_rest:
  "resolve st (case dropWhile (\<lambda>x. x \<noteq> CHR ''/'') s of [] \<Rightarrow> [] | x # t \<Rightarrow> elements t) =
   resolve st (elements (dropWhile (\<lambda>x. x \<noteq> CHR ''/'') s))"
proof (cases "dropWhile (\<lambda>x. x \<noteq> CHR ''/'') s")
  case Nil
  show ?thesis unfolding Nil by simp
next
  case (Cons x t)
  have "\<not> (\<lambda>x. x \<noteq> CHR ''/'') (hd (dropWhile (\<lambda>x. x \<noteq> CHR ''/'') s))"
    by (rule hd_dropWhile) (simp add: Cons)
  then have "x = CHR ''/''" by (simp add: Cons)
  then show ?thesis unfolding Cons by simp
qed

lemma backtrack_to_slash:
  "CHR ''/'' \<notin> set e \<Longrightarrow> k \<le> length e \<Longrightarrow> dotdot \<le> length A \<Longrightarrow> A \<noteq> [] \<Longrightarrow>
   backtrack (A @ CHR ''/'' # e) dotdot (length A + k) = length A"
proof (induction k)
  case 0
  then obtain n where n: "length A = Suc n" by (cases A) auto
  then show ?case by (simp add: nth_append)
next
  case (Suc k)
  have "(A @ CHR ''/'' # e) ! Suc (length A + k) = e ! k"
    by (simp add: nth_append)
  moreover have "e ! k \<noteq> CHR ''/''" using Suc.prems by (metis Suc_le_lessD nth_mem)
  ultimately show ?case using Suc by simp
qed

lemma backtrack_to_root:
  "CHR ''/'' \<notin> set e \<Longrightarrow> k < length e \<Longrightarrow>
   backtrack (CHR ''/'' # e) 1 (Suc k) = 1"
proof (induction k)
  case 0
  then show ?case by simp
next
  case (Suc k)
  have "e ! Suc k \<noteq> CHR ''/''" using Suc.prems by (metis nth_mem)
  then show ?case using Suc by simp
qed

lemma render_snoc:
  "render (st @ [e]) = (if st = [] then [] else render st) @ CHR ''/'' # e"
  by (simp add: render_def)

lemma length_render_gt: "wf_stack st \<Longrightarrow> st \<noteq> [] \<Longrightarrow> 1 < length (render st)"
proof -
  assume wf: "wf_stack st" and "st \<noteq> []"
  then obtain e st' where st: "st = e # st'" by (cases st) auto
  with wf have "e \<noteq> []" by (simp add: wf_stack_def)
  then obtain c e' where "e = c # e'" by (cases e) auto
  with st show ?thesis by (simp add: render_def)
qed

lemma render_backtrack:
  assumes "wf_stack (st @ [e])"
  shows "take (backtrack (render (st @ [e])) 1 (length (render (st @ [e])) - 1))
           (render (st @ [e])) = render st"
proof (cases "st = []")
  case True
  from assms have e: "e \<noteq> []" "CHR ''/'' \<notin> set e" by (auto simp: wf_stack_def)
  then obtain k where k: "length e = Suc k" by (cases e) auto
  with e have "backtrack (CHR ''/'' # e) 1 (Suc k) = 1"
    by (intro backtrack_to_root) auto
  with True k show ?thesis by (simp add: render_def)
next
  case False
  from assms have e: "CHR ''/'' \<notin> set e" and st: "wf_stack st"
    by (auto simp: wf_stack_def)
  from st False have l: "1 < length (render st)" by (rule length_render_gt)
  then have ne: "render st \<noteq> []" by auto
  have "backtrack (render st @ CHR ''/'' # e) 1 (length (render st) + length e) =
        length (render st)"
    using e l ne by (intro backtrack_to_slash) auto
  with False show ?thesis by (simp add: render_snoc)
qed

lemma wf_stack_butlast: "wf_stack st \<Longrightarrow> wf_stack (butlast st)"
  by (auto simp: wf_stack_def dest: in_set_butlastD)

lemma wf_stack_snoc:
  "wf_stack st \<Longrightarrow> e \<noteq> [] \<Longrightarrow> CHR ''/'' \<notin> set e \<Longrightarrow> wf_stack (st @ [e])"
  by (auto simp: wf_stack_def)

lemma length_render_1: "wf_stack st \<Longrightarrow> (length (render st) = 1) = (st = [])"
  using length_render_gt [of st] by (auto simp: render_def)

declare clean_loop.simps(2) [simp del]

lemma clean_loop_slash:
  "clean_loop rooted dotdot out (CHR ''/'' # cs) = clean_loop rooted dotdot out cs"
  by (subst clean_loop.simps(2)) simp

lemma clean_loop_dot:
  "cs = [] \<or> hd cs = CHR ''/'' \<Longrightarrow>
   clean_loop rooted dotdot out (CHR ''.'' # cs) = clean_loop rooted dotdot out cs"
  by (subst clean_loop.simps(2)) simp

lemma clean_loop_dotdot:
  "ds = [] \<or> hd ds = CHR ''/'' \<Longrightarrow>
   clean_loop True dotdot out (CHR ''.'' # CHR ''.'' # ds) =
     (if length out > dotdot
      then clean_loop True dotdot (take (backtrack out dotdot (length out - 1)) out) ds
      else clean_loop True dotdot out ds)"
  by (subst clean_loop.simps(2)) simp

lemma clean_loop_elem:
  "c \<noteq> CHR ''/'' \<Longrightarrow>
   \<not> (c = CHR ''.'' \<and> (cs = [] \<or> hd cs = CHR ''/'')) \<Longrightarrow>
   \<not> (c = CHR ''.'' \<and> hd cs = CHR ''.'' \<and> (tl cs = [] \<or> hd (tl cs) = CHR ''/'')) \<Longrightarrow>
   clean_loop True dotdot out (c # cs) =
     clean_loop True dotdot
       ((if length out \<noteq> 1 then out @ ''/'' else out) @ takeWhile (\<lambda>x. x \<noteq> CHR ''/'') (c # cs))
       (dropWhile (\<lambda>x. x \<noteq> CHR ''/'') (c # cs))"
proof -
  assume 1: "c \<noteq> CHR ''/''"
    and 2: "\<not> (c = CHR ''.'' \<and> (cs = [] \<or> hd cs = CHR ''/''))"
    and 3: "\<not> (c = CHR ''.'' \<and> hd cs = CHR ''.'' \<and> (tl cs = [] \<or> hd (tl cs) = CHR ''/''))"
  have r: "(True \<and> length out \<noteq> 1 \<or> \<not> True \<and> length out \<noteq> 0) = (length out \<noteq> 1)"
    by simp
  show ?thesis
    by (subst clean_loop.simps(2)) (simp only: 1 2 3 if_False Let_def r)
qed

lemma clean_loop_rooted:
  "wf_stack st \<Longrightarrow>
   clean_loop True 1 (render st) rest = render (resolve st (elements rest))"
proof (induction "length rest" arbitrary: rest st rule: less_induct)
  case less
  show ?case
  proof (cases rest)
    case Nil
    then show ?thesis by simp
  next
    case (Cons c cs)
    note IH = less.hyps [OF _ less.prems]
    consider (slash) "c = CHR ''/''"
      | (dot) "c = CHR ''.''" "cs = [] \<or> hd cs = CHR ''/''"
      | (dotdot) "c = CHR ''.''" "cs \<noteq> []" "hd cs = CHR ''.''"
          "tl cs = [] \<or> hd (tl cs) = CHR ''/''"
      | (elem) "c \<noteq> CHR ''/''"
          "\<not> (c = CHR ''.'' \<and> (cs = [] \<or> hd cs = CHR ''/''))"
          "\<not> (c = CHR ''.'' \<and> hd cs = CHR ''.'' \<and> (tl cs = [] \<or> hd (tl cs) = CHR ''/''))"
      by (cases "cs = []") auto
    then show ?thesis
    proof cases
      case slash
      with Cons IH [of cs] show ?thesis by (simp add: clean_loop_slash)
    next
      case dot
      show ?thesis
      proof (cases cs)
        case Nil
        with dot Cons show ?thesis by (simp add: clean_loop_dot)
      next
        case (Cons d ds)
        with dot have d: "d = CHR ''/''" by simp
        have "clean_loop True 1 (render st) rest = clean_loop True 1 (render st) cs"
          using dot \<open>rest = c # cs\<close> by (simp add: clean_loop_dot)
        also have "\<dots> = render (resolve st (elements cs))"
          using IH [of cs] \<open>rest = c # cs\<close> by simp
        also have "resolve st (elements cs) = resolve st (elements rest)"
          using dot d Cons \<open>rest = c # cs\<close> by simp
        finally show ?thesis .
      qed
    next
      case dotdot
      then obtain ds where cs: "cs = CHR ''.'' # ds" by (cases cs) auto
      with dotdot have ds: "ds = [] \<or> hd ds = CHR ''/''" by simp
      have el: "resolve st (elements rest) = resolve (butlast st) (elements ds)"
      proof (cases ds)
        case Nil
        with cs dotdot Cons show ?thesis by simp
      next
        case (Cons d ds')
        with ds have "d = CHR ''/''" by simp
        with Cons cs dotdot \<open>rest = c # cs\<close> show ?thesis by simp
      qed
      show ?thesis
      proof (cases "st = []")
        case True
        have "clean_loop True 1 (render st) rest = clean_loop True 1 (render st) ds"
          using dotdot cs ds True \<open>rest = c # cs\<close> by (simp add: clean_loop_dotdot render_def)
        also have "\<dots> = render (resolve st (elements ds))"
          using less.hyps [of ds st] less.prems cs \<open>rest = c # cs\<close> by simp
        finally show ?thesis using el True by simp
      next
        case False
        then obtain st' e where st: "st = st' @ [e]" by (metis rev_exhaust)
        have gt: "1 < length (render st)"
          using length_render_gt [OF less.prems False] .
        have "clean_loop True 1 (render st) rest =
              clean_loop True 1
                (take (backtrack (render st) 1 (length (render st) - 1)) (render st)) ds"
          using dotdot cs ds gt \<open>rest = c # cs\<close> by (simp add: clean_loop_dotdot)
        also have "take (backtrack (render st) 1 (length (render st) - 1)) (render st) =
              render st'"
          using render_backtrack [of st' e] less.prems st by simp
        also have "clean_loop True 1 (render st') ds = render (resolve st' (elements ds))"
          using less.hyps [of ds st'] wf_stack_butlast [OF less.prems] st cs
            \<open>rest = c # cs\<close> by simp
        finally show ?thesis using el st by simp
      qed
    next
      case elem
      let ?e = "takeWhile (\<lambda>x. x \<noteq> CHR ''/'') rest"
      let ?r = "dropWhile (\<lambda>x. x \<noteq> CHR ''/'') rest"
      have e_ne: "?e \<noteq> []" using elem Cons by simp
      have e_ns: "CHR ''/'' \<notin> set ?e" by (auto dest: set_takeWhileD)
      have e_dot: "?e \<noteq> ''.''"
      proof
        assume a: "?e = ''.''"
        then have "c = CHR ''.''" using Cons elem by simp
        moreover have "cs = [] \<or> hd cs = CHR ''/''"
          using a Cons elem by (cases cs) (auto split: if_splits)
        ultimately show False using elem by simp
      qed
      have e_dotdot: "?e \<noteq> ''..''"
      proof
        assume a: "?e = ''..''"
        then have c: "c = CHR ''.''" using Cons elem by simp
        from a Cons elem obtain ds where cs: "cs = CHR ''.'' # ds"
          by (cases cs) (auto split: if_splits)
        have "ds = [] \<or> hd ds = CHR ''/''"
          using a Cons c cs by (cases ds) (auto split: if_splits)
        with c cs elem show False by simp
      qed
      have len: "length ?r < length rest"
        using e_ne by (metis length_append takeWhile_dropWhile_id length_greater_0_conv
            less_add_same_cancel2)
      have out: "(if length (render st) \<noteq> 1 then render st @ ''/'' else render st) @ ?e =
                 render (st @ [?e])"
        using length_render_1 [OF less.prems] by (auto simp: render_snoc render_def)
      have "clean_loop True 1 (render st) rest =
            clean_loop True 1
              ((if length (render st) \<noteq> 1 then render st @ ''/'' else render st) @ ?e) ?r"
        using clean_loop_elem [OF elem, of 1 "render st"] Cons by simp
      also have "\<dots> = clean_loop True 1 (render (st @ [?e])) ?r"
        by (simp only: out)
      also have "\<dots> = render (resolve (st @ [?e]) (elements ?r))"
        using less.hyps [OF len wf_stack_snoc [OF less.prems e_ne e_ns]] .
      also have "resolve (st @ [?e]) (elements ?r) = resolve st (elements rest)"
        using e_ne e_dot e_dotdot
        by (subst (2) elements_split) (simp add: resolve_rest)
      finally show ?thesis .
    qed
  qed
qed


lemma elements_no_slash: "e \<in> set (elements s) \<Longrightarrow> CHR ''/'' \<notin> set e"
  by (induction s arbitrary: e) (auto split: if_splits list.splits)

lemma wf_stack_resolve:
  "wf_stack st \<Longrightarrow> \<forall>e \<in> set es. CHR ''/'' \<notin> set e \<Longrightarrow> wf_stack (resolve st es)"
proof (induction es arbitrary: st)
  case Nil
  then show ?case by simp
next
  case (Cons e es)
  then show ?case
    by (auto intro!: Cons.IH wf_stack_butlast wf_stack_snoc)
qed

lemma wf_stack_elements: "wf_stack st \<Longrightarrow> wf_stack (resolve st (elements s))"
  by (rule wf_stack_resolve) (auto dest: elements_no_slash)

lemma wf_stack_Nil: "wf_stack []"
  by (simp add: wf_stack_def)

lemma double_slash_append:
  "double_slash (xs @ ys) =
     (double_slash xs \<or> double_slash ys \<or>
      (xs \<noteq> [] \<and> ys \<noteq> [] \<and> last xs = CHR ''/'' \<and> hd ys = CHR ''/''))"
proof (induction xs)
  case Nil
  show ?case by simp
next
  case (Cons x xs)
  show ?case
  proof (cases xs)
    case Nil
    then show ?thesis by (cases ys) auto
  next
    case (Cons d ds)
    with Cons.IH show ?thesis by auto
  qed
qed

lemma double_slash_no_slash: "CHR ''/'' \<notin> set e \<Longrightarrow> \<not> double_slash e"
  by (induction e rule: double_slash.induct) auto

lemma render_shape:
  "wf_stack st \<Longrightarrow> st \<noteq> [] \<Longrightarrow>
   render st \<noteq> [] \<and> hd (render st) = CHR ''/'' \<and> last (render st) \<noteq> CHR ''/'' \<and>
   \<not> double_slash (render st)"
proof (induction st rule: rev_induct)
  case Nil
  then show ?case by simp
next
  case (snoc e st)
  from snoc.prems have e: "e \<noteq> []" "CHR ''/'' \<notin> set e" and wf: "wf_stack st"
    by (auto simp: wf_stack_def)
  from e have le: "last e \<noteq> CHR ''/''" by (metis last_in_set)
  from e have he: "hd e \<noteq> CHR ''/''" by (metis hd_in_set)
  have de: "\<not> double_slash (CHR ''/'' # e)"
    using e he double_slash_no_slash [of e] by (cases e) auto
  show ?case
  proof (cases "st = []")
    case True
    with e le de show ?thesis by (simp add: render_def)
  next
    case False
    with snoc.IH wf have IH: "render st \<noteq> []" "hd (render st) = CHR ''/''"
      "last (render st) \<noteq> CHR ''/''" "\<not> double_slash (render st)" by auto
    with False e le de show ?thesis
      by (simp add: render_snoc double_slash_append)
  qed
qed


lemma Clean_rooted: "Clean (CHR ''/'' # t) = render (resolve [] (elements t))"
proof -
  have "clean_loop True 1 ''/'' t = render (resolve [] (elements t))"
    using clean_loop_rooted [OF wf_stack_Nil, of t] by (simp add: render_def)
  moreover have "render (resolve [] (elements t)) \<noteq> []"
    using render_shape [OF wf_stack_elements [OF wf_stack_Nil]]
    by (cases "resolve [] (elements t) = []") (auto simp: render_def)
  ultimately show ?thesis by (simp add: Clean_def)
qed


lemma HasPrefix_slash: "HasPrefix s ''/'' = (s \<noteq> [] \<and> hd s = CHR ''/'')"
  by (cases s) (auto simp: HasPrefix_def)

lemma TrimSuffix_slash: "HasSuffix s ''/'' \<Longrightarrow> TrimSuffix s ''/'' = butlast s"
  by (simp add: TrimSuffix_def butlast_conv_take)

lemma Path_JoinPath: "Path (JoinPath u []) = joined (Path u)"
proof (cases "HasPrefix (Path u) ''/''")
  case True
  then obtain t where t: "Path u = CHR ''/'' # t"
    by (cases "Path u") (auto simp: HasPrefix_slash)
  then show ?thesis
    using True by (simp add: JoinPath_def joined_def Let_def Join_def Clean_rooted)
next
  case False
  then show ?thesis
    by (simp add: JoinPath_def joined_def Let_def Join_def Clean_rooted)
qed




lemma strip_url_path:
  "Path (strip_url flag u) =
     (if flag \<and> length (joined (Path u)) > 1 \<and> HasSuffix (joined (Path u)) ''/''
      then butlast (joined (Path u)) else joined (Path u))"
  by (simp add: strip_url_def Let_def Path_JoinPath TrimSuffix_slash)















text \<open>
  Beyond collapsing separators: the new path is the cleaned path of
  \<^verbatim>\<open>path.Clean\<close>, so \<^verbatim>\<open>.\<close> elements are dropped, \<^verbatim>\<open>..\<close> elements take the
  element before them away, and the empty path becomes the root.
\<close>

theorem StripSlashes_resolves_dot_elements:
  "Path (strip_url flag u) =
     (if flag \<and> length (joined (Path u)) > 1 \<and> HasSuffix (joined (Path u)) ''/''
      then TrimSuffix (joined (Path u)) ''/'' else joined (Path u))"
  by (simp add: strip_url_path TrimSuffix_slash)

theorem StripSlashes_resolves_dot_elements_witness:
  "Path (strip_url False (url0\<lparr>Path := ''/a/./b/../c''\<rparr>)) = ''/a/c'' \<and>
   Path (strip_url False (url0\<lparr>Path := ''/../a''\<rparr>)) = ''/a'' \<and>
   Path (strip_url False (url0\<lparr>Path := []\<rparr>)) = ''/''"
  using StripSlashes_resolves_dot_elements [of False "url0\<lparr>Path := ''/a/./b/../c''\<rparr>"]
    StripSlashes_resolves_dot_elements [of False "url0\<lparr>Path := ''/../a''\<rparr>"]
    StripSlashes_resolves_dot_elements [of False "url0\<lparr>Path := []\<rparr>"]
  by (simp add: joined_def HasPrefix_def HasSuffix_def render_def)

end
